theory Spec2Isabelle
  imports Main
begin

section \<open>The X-Plane OBJ8 importer: the scan loop of \<open>XPlaneImport.run\<close>\<close>

text \<open>
  The model follows \<open>XPlaneImport.run\<close> of \<open>XP_import.py\<close>. It starts from the token
  lists \<open>lineStr.split()\<close> of the lines of the file. Python's \<open>float\<close> and \<open>int\<close> are
  parameters \<open>pfloat\<close> and \<open>pint\<close> of the model (\<open>None\<close> stands for \<open>ValueError\<close>), and
  so is the host's image loader \<open>ld\<close> (\<open>False\<close> stands for a failure raised by the host).
  Numbers are elements of a ring \<open>'a\<close>. The source computes with IEEE floats, where
  \<open>x * -1\<close> is exact and is the negation of \<open>x\<close>, while \<open>+\<close> and \<open>-\<close> round. The
  theorems below use \<open>x * -1 = -x\<close> and no law of \<open>+\<close> or \<open>-\<close> on these numbers; the
  concrete inputs add and subtract small integers only, which floats represent exactly.
\<close>

subsection \<open>Errors and the Python primitives the loop uses\<close>

datatype error = IndexError | ValueError | HostError

definition bindE :: "error + 'b \<Rightarrow> ('b \<Rightarrow> error + 'c) \<Rightarrow> error + 'c" where
  "bindE m f = (case m of Inl e \<Rightarrow> Inl e | Inr x \<Rightarrow> f x)"

text \<open>\<open>line[k]\<close> for a literal \<open>k \<ge> 0\<close>.\<close>

definition getitem :: "'b list \<Rightarrow> nat \<Rightarrow> error + 'b" where
  "getitem xs k = (if k < length xs then Inr (xs ! k) else Inl IndexError)"

text \<open>\<open>xs[i] = v\<close> for an integer \<open>i\<close>: a negative index counts from the end.\<close>

definition setitem :: "'b list \<Rightarrow> int \<Rightarrow> 'b \<Rightarrow> error + 'b list" where
  "setitem xs i v =
     (let n = int (length xs); j = (if i < 0 then i + n else i)
      in if 0 \<le> j \<and> j < n then Inr (xs[nat j := v]) else Inl IndexError)"

text \<open>\<open>xs.pop()\<close>: the last element and the rest.\<close>

definition pop :: "'b list \<Rightarrow> error + ('b \<times> 'b list)" where
  "pop xs = (if xs = [] then Inl IndexError else Inr (last xs, butlast xs))"

text \<open>\<open>xs[lo:hi]\<close>: each bound is shifted by the length when negative, then clipped.\<close>

definition slice_bound :: "nat \<Rightarrow> int \<Rightarrow> nat" where
  "slice_bound n i = (if i < 0 then nat (max 0 (i + int n)) else min n (nat i))"

definition py_slice :: "'b list \<Rightarrow> int \<Rightarrow> int \<Rightarrow> 'b list" where
  "py_slice xs lo hi =
     (let a = slice_bound (length xs) lo; b = slice_bound (length xs) hi
      in take (b - a) (drop a xs))"

text \<open>\<open>float(line[k])\<close> and \<open>int(line[k])\<close>.\<close>

definition getnum :: "(string \<Rightarrow> 'n option) \<Rightarrow> string list \<Rightarrow> nat \<Rightarrow> error + 'n" where
  "getnum p line k =
     bindE (getitem line k) (\<lambda>t. case p t of None \<Rightarrow> Inl ValueError | Some v \<Rightarrow> Inr v)"

text \<open>\<open>map(int, line[1:])\<close>, consumed from left to right.\<close>

fun map_int :: "(string \<Rightarrow> int option) \<Rightarrow> string list \<Rightarrow> error + int list" where
  "map_int pint [] = Inr []"
| "map_int pint (t # ts) =
     (case pint t of None \<Rightarrow> Inl ValueError
      | Some v \<Rightarrow> bindE (map_int pint ts) (\<lambda>vs. Inr (v # vs)))"

subsection \<open>Vectors and the local variables of \<open>run\<close>\<close>

type_synonym 'a vec = "'a \<times> 'a \<times> 'a"

text \<open>\<open>Vector + Vector\<close> and \<open>Vector - Vector\<close> of the host library work component by
  component; the definitions assume no law of \<open>+\<close> and \<open>-\<close>.\<close>

fun vadd :: "'a::plus vec \<Rightarrow> 'a vec \<Rightarrow> 'a vec" where
  "vadd (a, b, c) (x, y, z) = (a + x, b + y, c + z)"

fun vsub :: "'a::minus vec \<Rightarrow> 'a vec \<Rightarrow> 'a vec" where
  "vsub (a, b, c) (x, y, z) = (a - x, b - y, c - z)"

record 'a run_state =
  verts :: "'a vec list"
  uv :: "('a \<times> 'a) list"
  faces :: "int list"
  normals :: "'a vec list"
  origin_temp :: "'a vec"
  anim_nesting :: int
  a_trans :: "'a vec list"
  trans_available :: bool
  objects :: "('a vec \<times> int list) list"

definition init_state :: "'a::ring_1 run_state" where
  "init_state =
     \<lparr>verts = [], uv = [], faces = [], normals = [], origin_temp = (0, 0, 0),
      anim_nesting = 0, a_trans = [(0, 0, 0)], trans_available = False, objects = []\<rparr>"

subsection \<open>The body of the loop, keyword by keyword\<close>

text \<open>\<open>TEXTURE\<close>, \<open>TEXTURE_DRAPED\<close>, \<open>TEXTURE_LIT\<close>, \<open>TEXTURE_NORMAL\<close>: \<open>line[1]\<close> is
  read and handed to the host; the material is no part of the state.\<close>

definition on_texture :: "(string \<Rightarrow> bool) \<Rightarrow> string list \<Rightarrow> 's \<Rightarrow> error + 's" where
  "on_texture ld line s =
     bindE (getitem line 1) (\<lambda>t. if ld t then Inr s else Inl HostError)"

text \<open>\<open>TEXTURE_DRAPED_NORMAL\<close>: \<open>line[1]\<close> is the ratio, \<open>line[2]\<close> the file.\<close>

definition on_texture_draped_normal ::
  "(string \<Rightarrow> bool) \<Rightarrow> string list \<Rightarrow> 's \<Rightarrow> error + 's" where
  "on_texture_draped_normal ld line s =
     bindE (getitem line 1) (\<lambda>ratio.
     bindE (getitem line 2) (\<lambda>t. if ld t then Inr s else Inl HostError))"

text \<open>\<open>VT\<close>: the fields are read in the order of the source (1, 3, 2, then 4, 6, 5, then
  7, 8). The three \<open>append\<close>s are one update here: an exception between them leaves
  \<open>run\<close>, and the lists with it.\<close>

definition on_VT ::
  "(string \<Rightarrow> 'a option) \<Rightarrow> string list \<Rightarrow> 'a::ring_1 run_state \<Rightarrow> error + 'a run_state" where
  "on_VT pfloat line s =
     bindE (getnum pfloat line 1) (\<lambda>vx.
     bindE (getnum pfloat line 3) (\<lambda>f3.
     bindE (getnum pfloat line 2) (\<lambda>vz.
     bindE (getnum pfloat line 4) (\<lambda>vnx.
     bindE (getnum pfloat line 6) (\<lambda>f6.
     bindE (getnum pfloat line 5) (\<lambda>vnz.
     bindE (getnum pfloat line 7) (\<lambda>uvx.
     bindE (getnum pfloat line 8) (\<lambda>uvy.
       Inr (s\<lparr>verts := verts s @ [(vx, f3 * - 1, vz)],
              normals := normals s @ [(vnx, f6 * - 1, vnz)],
              uv := uv s @ [(uvx, uvy)]\<rparr>)))))))))"

definition on_IDX ::
  "(string \<Rightarrow> int option) \<Rightarrow> string list \<Rightarrow> 'a run_state \<Rightarrow> error + 'a run_state" where
  "on_IDX pint line s =
     bindE (map_int pint (drop 1 line)) (\<lambda>vs. Inr (s\<lparr>faces := faces s @ vs\<rparr>))"

definition on_ANIM_begin :: "'a::ring_1 run_state \<Rightarrow> error + 'a run_state" where
  "on_ANIM_begin s =
     Inr (s\<lparr>anim_nesting := anim_nesting s + 1, a_trans := a_trans s @ [(0, 0, 0)]\<rparr>)"

text \<open>\<open>ANIM_trans\<close>: the frame at index \<open>anim_nesting\<close> is replaced, the vector is
  added to \<open>origin_temp\<close>, and the flag is set.\<close>

definition on_ANIM_trans ::
  "(string \<Rightarrow> 'a option) \<Rightarrow> string list \<Rightarrow> 'a::ring_1 run_state \<Rightarrow> error + 'a run_state" where
  "on_ANIM_trans pfloat line s =
     bindE (getnum pfloat line 1) (\<lambda>trans_x.
     bindE (getnum pfloat line 3) (\<lambda>f3.
     bindE (getnum pfloat line 2) (\<lambda>trans_z.
       let o_t = (trans_x, f3 * - 1, trans_z) in
       bindE (setitem (a_trans s) (anim_nesting s) o_t) (\<lambda>at.
         Inr (s\<lparr>a_trans := at, origin_temp := vadd (origin_temp s) o_t,
                trans_available := True\<rparr>)))))"

text \<open>\<open>ANIM_end\<close>: the counter is decremented, the last frame is popped and
  subtracted, and the flag is cleared when the counter is back at 0.\<close>

definition on_ANIM_end :: "'a::ring_1 run_state \<Rightarrow> error + 'a run_state" where
  "on_ANIM_end s =
     (let n = anim_nesting s - 1 in
      bindE (pop (a_trans s)) (\<lambda>(v, rest).
        Inr (s\<lparr>anim_nesting := n, a_trans := rest, origin_temp := vsub (origin_temp s) v,
               trans_available := (if n = 0 then False else trans_available s)\<rparr>)))"

text \<open>\<open>TRIS\<close>: the slice \<open>faces[offset:offset+count]\<close> is a new list; the origin is
  \<open>origin_temp\<close> when the flag is set and \<open>Vector(origo)\<close> otherwise.\<close>

definition on_TRIS ::
  "(string \<Rightarrow> int option) \<Rightarrow> 'a vec \<Rightarrow> string list \<Rightarrow> 'a run_state \<Rightarrow> error + 'a run_state" where
  "on_TRIS pint origo line s =
     bindE (getnum pint line 1) (\<lambda>tris_offset.
     bindE (getnum pint line 2) (\<lambda>tris_count.
       let obj_lst = py_slice (faces s) tris_offset (tris_offset + tris_count);
           obj_origin = (if trans_available s then origin_temp s else origo)
       in Inr (s\<lparr>objects := objects s @ [(obj_origin, obj_lst)]\<rparr>)))"

text \<open>One \<open>if\<close> block of the loop body: run \<open>f\<close> when the keyword matches.\<close>

definition when_kw :: "bool \<Rightarrow> ('s \<Rightarrow> error + 's) \<Rightarrow> 's \<Rightarrow> error + 's" where
  "when_kw b f s = (if b then f s else Inr s)"

text \<open>One iteration: an empty token list is skipped; the \<open>if\<close> blocks run in the order
  of the source, each on the state the previous one left.\<close>

definition step ::
  "(string \<Rightarrow> 'a option) \<Rightarrow> (string \<Rightarrow> int option) \<Rightarrow> (string \<Rightarrow> bool) \<Rightarrow> 'a vec \<Rightarrow>
   'a::ring_1 run_state \<Rightarrow> string list \<Rightarrow> error + 'a run_state" where
  "step pfloat pint ld origo s line =
     (if length line = 0 then Inr s
      else let kw = line ! 0 in
        bindE (when_kw (kw = ''TEXTURE'' \<or> kw = ''TEXTURE_DRAPED'') (on_texture ld line) s) (\<lambda>s.
        bindE (when_kw (kw = ''TEXTURE_LIT'') (on_texture ld line) s) (\<lambda>s.
        bindE (when_kw (kw = ''TEXTURE_NORMAL'') (on_texture ld line) s) (\<lambda>s.
        bindE (when_kw (kw = ''TEXTURE_DRAPED_NORMAL'') (on_texture_draped_normal ld line) s) (\<lambda>s.
        bindE (when_kw (kw = ''VT'') (on_VT pfloat line) s) (\<lambda>s.
        bindE (when_kw (kw = ''IDX10'' \<or> kw = ''IDX'') (on_IDX pint line) s) (\<lambda>s.
        bindE (when_kw (kw = ''ANIM_begin'') on_ANIM_begin s) (\<lambda>s.
        bindE (when_kw (kw = ''ANIM_trans'') (on_ANIM_trans pfloat line) s) (\<lambda>s.
        bindE (when_kw (kw = ''ANIM_end'') on_ANIM_end s) (\<lambda>s.
        when_kw (kw = ''TRIS'') (on_TRIS pint origo line) s))))))))))"

text \<open>The \<open>for\<close> loop over the lines; an exception leaves the loop and \<open>run\<close>.\<close>

fun scan ::
  "(string \<Rightarrow> 'a option) \<Rightarrow> (string \<Rightarrow> int option) \<Rightarrow> (string \<Rightarrow> bool) \<Rightarrow> 'a vec \<Rightarrow>
   'a::ring_1 run_state \<Rightarrow> string list list \<Rightarrow> error + 'a run_state" where
  "scan pfloat pint ld origo s [] = Inr s"
| "scan pfloat pint ld origo s (line # lines) =
     bindE (step pfloat pint ld origo s line) (\<lambda>s'. scan pfloat pint ld origo s' lines)"

subsection \<open>The second loop: one mesh per collected object\<close>

text \<open>\<open>tuple(zip(*[iter(obj)]*3))\<close>: three entries at a time from one iterator; an
  incomplete last group is dropped.\<close>

fun triples :: "'b list \<Rightarrow> ('b \<times> 'b \<times> 'b) list" where
  "triples (a # b # c # xs) = (a, b, c) # triples xs"
| "triples xs = []"

text \<open>A call of \<open>createMeshFromData\<close>: the counter of the name, the origin, and the
  arguments \<open>verts\<close>, \<open>faces\<close>, \<open>vert_uvs\<close>, \<open>vert_normals\<close>.\<close>

record 'a mesh_call =
  mc_counter :: nat
  mc_origin :: "'a vec"
  mc_verts :: "'a vec list"
  mc_faces :: "(int \<times> int \<times> int) list"
  mc_uvs :: "('a \<times> 'a) list"
  mc_normals :: "'a vec list"

fun mesh_calls :: "'a run_state \<Rightarrow> nat \<Rightarrow> ('a vec \<times> int list) list \<Rightarrow> 'a mesh_call list" where
  "mesh_calls s counter [] = []"
| "mesh_calls s counter ((orig, obj) # rest) =
     \<lparr>mc_counter = counter, mc_origin = orig, mc_verts = verts s, mc_faces = triples obj,
      mc_uvs = uv s, mc_normals = normals s\<rparr> # mesh_calls s (counter + 1) rest"


subsection \<open>A decimal reader for concrete inputs\<close>

text \<open>On a token that is an optional sign followed by decimal digits, \<open>int\<close> and \<open>float\<close>
  return the number it denotes; \<open>dec_int\<close> and \<open>dec_num\<close> read exactly these tokens.\<close>

definition digit_val :: "char \<Rightarrow> nat option" where
  "digit_val c =
     (let n = (of_char c :: nat) in if 48 \<le> n \<and> n \<le> 57 then Some (n - 48) else None)"

fun dec_digits :: "nat \<Rightarrow> string \<Rightarrow> nat option" where
  "dec_digits acc [] = Some acc"
| "dec_digits acc (c # cs) =
     (case digit_val c of None \<Rightarrow> None | Some d \<Rightarrow> dec_digits (10 * acc + d) cs)"

definition dec_nat :: "string \<Rightarrow> nat option" where
  "dec_nat t = (if t = [] then None else dec_digits 0 t)"

definition dec_int :: "string \<Rightarrow> int option" where
  "dec_int t =
     (case t of
        [] \<Rightarrow> None
      | c # cs \<Rightarrow>
          if c = CHR ''-'' then map_option (\<lambda>n. - int n) (dec_nat cs)
          else if c = CHR ''+'' then map_option int (dec_nat cs)
          else map_option int (dec_nat t))"

definition dec_num :: "string \<Rightarrow> 'a::ring_1 option" where
  "dec_num t = map_option of_int (dec_int t)"

definition any_file :: "string \<Rightarrow> bool" where
  "any_file t = True"

subsection \<open>Properties of a state of the scan\<close>


text \<open>\<open>anim_nesting\<close> is the index of the last frame of \<open>a_trans\<close>.\<close>

definition stack_synced :: "'a run_state \<Rightarrow> bool" where
  "stack_synced s \<longleftrightarrow> int (length (a_trans s)) = anim_nesting s + 1"


subsection \<open>The rules of the specification, for comparison\<close>

text \<open>The axis conversion as the specification words it: \<open>(x, y, z)\<close> maps to
  \<open>(x, z, -y)\<close>.\<close>

definition spec_convert :: "'a::ring_1 vec \<Rightarrow> 'a vec" where
  "spec_convert v = (case v of (x, y, z) \<Rightarrow> (x, z, - y))"

text \<open>The origin rule as the specification words it: the cumulative origin when the
  nesting depth is above the root, the caller's placement otherwise.\<close>

definition spec_origin :: "'a run_state \<Rightarrow> 'a vec \<Rightarrow> 'a vec" where
  "spec_origin s origo = (if 0 < anim_nesting s then origin_temp s else origo)"

text \<open>The vector sum of the frames on the stack.\<close>

definition frames_sum :: "'a::ring_1 vec list \<Rightarrow> 'a vec" where
  "frames_sum fs = foldr vadd fs (0, 0, 0)"

section \<open>Lemmas\<close>

subsection \<open>Results and keyword dispatch\<close>

lemma bindE_Inr [simp]: "bindE (Inr x) f = f x"
  by (simp add: bindE_def)

lemma bindE_Inl [simp]: "bindE (Inl e) f = Inl e"
  by (simp add: bindE_def)

lemma bindE_return [simp]: "bindE m Inr = m"
  by (cases m) simp_all

lemma when_kw_False [simp]: "when_kw False f = Inr"
  by (rule ext) (simp add: when_kw_def)

lemma when_kw_True [simp]: "when_kw True f s = f s"
  by (simp add: when_kw_def)

lemma step_Nil: "step pfloat pint ld origo s [] = Inr s"
  by (simp add: step_def)

lemma step_VT: "step pfloat pint ld origo s (''VT'' # ts) = on_VT pfloat (''VT'' # ts) s"
  by (simp add: step_def)

lemma step_IDX: "step pfloat pint ld origo s (''IDX'' # ts) = on_IDX pint (''IDX'' # ts) s"
  by (simp add: step_def)

lemma step_IDX10: "step pfloat pint ld origo s (''IDX10'' # ts) = on_IDX pint (''IDX10'' # ts) s"
  by (simp add: step_def)

lemma step_ANIM_begin: "step pfloat pint ld origo s (''ANIM_begin'' # ts) = on_ANIM_begin s"
  by (simp add: step_def)

lemma step_ANIM_trans:
  "step pfloat pint ld origo s (''ANIM_trans'' # ts) = on_ANIM_trans pfloat (''ANIM_trans'' # ts) s"
  by (simp add: step_def)

lemma step_ANIM_end: "step pfloat pint ld origo s (''ANIM_end'' # ts) = on_ANIM_end s"
  by (simp add: step_def)

lemma step_TRIS:
  "step pfloat pint ld origo s (''TRIS'' # ts) = on_TRIS pint origo (''TRIS'' # ts) s"
  by (simp add: step_def)

lemma step_texture:
  "kw = ''TEXTURE'' \<or> kw = ''TEXTURE_DRAPED'' \<or> kw = ''TEXTURE_LIT'' \<or> kw = ''TEXTURE_NORMAL''
   \<Longrightarrow> step pfloat pint ld origo s (kw # ts) = on_texture ld (kw # ts) s"
  by (elim disjE) (simp_all add: step_def)

lemma step_texture_draped_normal:
  "step pfloat pint ld origo s (''TEXTURE_DRAPED_NORMAL'' # ts) =
     on_texture_draped_normal ld (''TEXTURE_DRAPED_NORMAL'' # ts) s"
  by (simp add: step_def)

lemma step_other:
  "kw \<notin> {''TEXTURE'', ''TEXTURE_DRAPED'', ''TEXTURE_LIT'', ''TEXTURE_NORMAL'',
        ''TEXTURE_DRAPED_NORMAL'', ''VT'', ''IDX10'', ''IDX'', ''ANIM_begin'', ''ANIM_trans'',
        ''ANIM_end'', ''TRIS''} \<Longrightarrow> step pfloat pint ld origo s (kw # ts) = Inr s"
  by (simp add: step_def)

lemma bindE_eq_Inr: "bindE m f = Inr y \<longleftrightarrow> (\<exists>x. m = Inr x \<and> f x = Inr y)"
  by (cases m) simp_all

lemma on_texture_Inr: "on_texture ld line s = Inr s' \<Longrightarrow> s' = s"
  by (auto simp: on_texture_def bindE_eq_Inr split: if_splits)

lemma on_texture_draped_normal_Inr: "on_texture_draped_normal ld line s = Inr s' \<Longrightarrow> s' = s"
  by (auto simp: on_texture_draped_normal_def bindE_eq_Inr split: if_splits)

lemma kw_cases:
  assumes "kw \<in> {''TEXTURE'', ''TEXTURE_DRAPED'', ''TEXTURE_LIT'', ''TEXTURE_NORMAL'',
        ''TEXTURE_DRAPED_NORMAL'', ''VT'', ''IDX10'', ''IDX'', ''ANIM_begin'', ''ANIM_trans'',
        ''ANIM_end'', ''TRIS''}"
  shows "(kw = ''TEXTURE'' \<or> kw = ''TEXTURE_DRAPED'' \<or> kw = ''TEXTURE_LIT'' \<or>
     kw = ''TEXTURE_NORMAL'') \<or> kw = ''TEXTURE_DRAPED_NORMAL'' \<or> kw = ''VT'' \<or>
     kw = ''IDX10'' \<or> kw = ''IDX'' \<or> kw = ''ANIM_begin'' \<or> kw = ''ANIM_trans'' \<or>
     kw = ''ANIM_end'' \<or> kw = ''TRIS''"
  using assms unfolding insert_iff empty_iff by (elim disjE) (simp_all only: simp_thms)

lemma step_cases:
  assumes "step pfloat pint ld origo s line = Inr s'"
  shows "s' = s \<or> on_VT pfloat line s = Inr s' \<or> on_IDX pint line s = Inr s' \<or>
         on_ANIM_begin s = Inr s' \<or> on_ANIM_trans pfloat line s = Inr s' \<or>
         on_ANIM_end s = Inr s' \<or> on_TRIS pint origo line s = Inr s'"
proof (cases line)
  case Nil
  from assms have "s' = s" unfolding Nil step_Nil by (simp only: sum.inject)
  then show ?thesis by (simp only: simp_thms)
next
  case (Cons kw ts)
  show ?thesis
  proof (cases "kw \<in> {''TEXTURE'', ''TEXTURE_DRAPED'', ''TEXTURE_LIT'', ''TEXTURE_NORMAL'',
        ''TEXTURE_DRAPED_NORMAL'', ''VT'', ''IDX10'', ''IDX'', ''ANIM_begin'', ''ANIM_trans'',
        ''ANIM_end'', ''TRIS''}")
    case False
    from assms have "s' = s" unfolding Cons step_other [OF False] by (simp only: sum.inject)
    then show ?thesis by (simp only: simp_thms)
  next
    case True
    from kw_cases [OF True] show ?thesis
    proof (elim disjE)
      assume kw: "kw = ''TEXTURE''"
      have tex: "kw = ''TEXTURE'' \<or> kw = ''TEXTURE_DRAPED'' \<or> kw = ''TEXTURE_LIT'' \<or>
               kw = ''TEXTURE_NORMAL''"
        unfolding kw by (simp only: simp_thms)
      from assms have "on_texture ld (kw # ts) s = Inr s'"
        unfolding Cons step_texture [OF tex] .
      then have "s' = s" by (rule on_texture_Inr)
      then show ?thesis by (simp only: simp_thms)
    next
      assume kw: "kw = ''TEXTURE_DRAPED''"
      have tex: "kw = ''TEXTURE'' \<or> kw = ''TEXTURE_DRAPED'' \<or> kw = ''TEXTURE_LIT'' \<or>
               kw = ''TEXTURE_NORMAL''"
        unfolding kw by (simp only: simp_thms)
      from assms have "on_texture ld (kw # ts) s = Inr s'"
        unfolding Cons step_texture [OF tex] .
      then have "s' = s" by (rule on_texture_Inr)
      then show ?thesis by (simp only: simp_thms)
    next
      assume kw: "kw = ''TEXTURE_LIT''"
      have tex: "kw = ''TEXTURE'' \<or> kw = ''TEXTURE_DRAPED'' \<or> kw = ''TEXTURE_LIT'' \<or>
               kw = ''TEXTURE_NORMAL''"
        unfolding kw by (simp only: simp_thms)
      from assms have "on_texture ld (kw # ts) s = Inr s'"
        unfolding Cons step_texture [OF tex] .
      then have "s' = s" by (rule on_texture_Inr)
      then show ?thesis by (simp only: simp_thms)
    next
      assume kw: "kw = ''TEXTURE_NORMAL''"
      have tex: "kw = ''TEXTURE'' \<or> kw = ''TEXTURE_DRAPED'' \<or> kw = ''TEXTURE_LIT'' \<or>
               kw = ''TEXTURE_NORMAL''"
        unfolding kw by (simp only: simp_thms)
      from assms have "on_texture ld (kw # ts) s = Inr s'"
        unfolding Cons step_texture [OF tex] .
      then have "s' = s" by (rule on_texture_Inr)
      then show ?thesis by (simp only: simp_thms)
    next
      assume kw: "kw = ''TEXTURE_DRAPED_NORMAL''"
      from assms have "on_texture_draped_normal ld (''TEXTURE_DRAPED_NORMAL'' # ts) s = Inr s'"
        unfolding Cons kw step_texture_draped_normal .
      then have "s' = s" by (rule on_texture_draped_normal_Inr)
      then show ?thesis by (simp only: simp_thms)
    next
      assume kw: "kw = ''VT''"
      from assms have "on_VT pfloat line s = Inr s'" unfolding Cons kw step_VT .
      then show ?thesis by (simp only: simp_thms)
    next
      assume kw: "kw = ''IDX10''"
      from assms have "on_IDX pint line s = Inr s'" unfolding Cons kw step_IDX10 .
      then show ?thesis by (simp only: simp_thms)
    next
      assume kw: "kw = ''IDX''"
      from assms have "on_IDX pint line s = Inr s'" unfolding Cons kw step_IDX .
      then show ?thesis by (simp only: simp_thms)
    next
      assume kw: "kw = ''ANIM_begin''"
      from assms have "on_ANIM_begin s = Inr s'" unfolding Cons kw step_ANIM_begin .
      then show ?thesis by (simp only: simp_thms)
    next
      assume kw: "kw = ''ANIM_trans''"
      from assms have "on_ANIM_trans pfloat line s = Inr s'" unfolding Cons kw step_ANIM_trans .
      then show ?thesis by (simp only: simp_thms)
    next
      assume kw: "kw = ''ANIM_end''"
      from assms have "on_ANIM_end s = Inr s'" unfolding Cons kw step_ANIM_end .
      then show ?thesis by (simp only: simp_thms)
    next
      assume kw: "kw = ''TRIS''"
      from assms have "on_TRIS pint origo line s = Inr s'" unfolding Cons kw step_TRIS .
      then show ?thesis by (simp only: simp_thms)
    qed
  qed
qed

lemma scan_append:
  "scan pfloat pint ld origo s (xs @ ys) =
     bindE (scan pfloat pint ld origo s xs) (\<lambda>s'. scan pfloat pint ld origo s' ys)"
proof (induction xs arbitrary: s)
  case Nil
  show ?case by simp
next
  case (Cons x xs)
  show ?case
    by (cases "step pfloat pint ld origo s x") (simp_all add: Cons.IH)
qed

lemma scan_invariant:
  assumes step: "\<And>s line s'. P s \<Longrightarrow> step pfloat pint ld origo s line = Inr s' \<Longrightarrow> P s'"
    and "P s" and "scan pfloat pint ld origo s ls = Inr s'"
  shows "P s'"
  using assms(2,3)
proof (induction ls arbitrary: s)
  case Nil
  then show ?case by simp
next
  case (Cons l ls)
  from Cons.prems(2) obtain s1 where s1: "step pfloat pint ld origo s l = Inr s1"
    and rest: "scan pfloat pint ld origo s1 ls = Inr s'"
    by (auto simp: bindE_eq_Inr)
  from step [OF Cons.prems(1) s1] have "P s1" .
  then show ?case using rest by (rule Cons.IH)
qed

subsection \<open>What each keyword changes\<close>

lemma bindE_InrE:
  assumes "bindE m f = Inr y"
  obtains x where "m = Inr x" and "f x = Inr y"
  using assms by (cases m) simp_all

lemma on_VT_Inr:
  assumes "on_VT pfloat line s = Inr s'"
  obtains p n t where "s' = s\<lparr>verts := verts s @ [p], normals := normals s @ [n], uv := uv s @ [t]\<rparr>"
  using assms unfolding on_VT_def
  by (elim bindE_InrE) (rule that, drule sum.inject [THEN iffD1], erule sym)

lemma on_IDX_Inr:
  assumes "on_IDX pint line s = Inr s'"
  obtains vs where "s' = s\<lparr>faces := faces s @ vs\<rparr>"
  using assms unfolding on_IDX_def
  by (elim bindE_InrE) (rule that, drule sum.inject [THEN iffD1], erule sym)

lemma on_ANIM_begin_Inr:
  assumes "on_ANIM_begin s = Inr s'"
  shows "s' = s\<lparr>anim_nesting := anim_nesting s + 1, a_trans := a_trans s @ [(0, 0, 0)]\<rparr>"
proof -
  from assms have "s\<lparr>anim_nesting := anim_nesting s + 1, a_trans := a_trans s @ [(0, 0, 0)]\<rparr> = s'"
    unfolding on_ANIM_begin_def by (rule sum.inject [THEN iffD1])
  then show ?thesis by (rule sym)
qed

lemma on_ANIM_trans_Inr:
  assumes "on_ANIM_trans pfloat line s = Inr s'"
  obtains o_t at where "setitem (a_trans s) (anim_nesting s) o_t = Inr at"
    and "s' = s\<lparr>a_trans := at, origin_temp := vadd (origin_temp s) o_t, trans_available := True\<rparr>"
  using assms unfolding on_ANIM_trans_def Let_def
  by (elim bindE_InrE) (rule that, assumption, drule sum.inject [THEN iffD1], erule sym)

lemma on_ANIM_end_Inr:
  assumes "on_ANIM_end s = Inr s'"
  shows "a_trans s \<noteq> [] \<and>
     s' = s\<lparr>anim_nesting := anim_nesting s - 1, a_trans := butlast (a_trans s),
            origin_temp := vsub (origin_temp s) (last (a_trans s)),
            trans_available := (if anim_nesting s - 1 = 0 then False else trans_available s)\<rparr>"
proof (cases "a_trans s = []")
  case True
  with assms show ?thesis by (simp add: on_ANIM_end_def pop_def)
next
  case False
  with assms have "s\<lparr>anim_nesting := anim_nesting s - 1, a_trans := butlast (a_trans s),
            origin_temp := vsub (origin_temp s) (last (a_trans s)),
            trans_available := (if anim_nesting s - 1 = 0 then False else trans_available s)\<rparr> = s'"
    by (simp add: on_ANIM_end_def pop_def Let_def)
  then have "s' = s\<lparr>anim_nesting := anim_nesting s - 1, a_trans := butlast (a_trans s),
            origin_temp := vsub (origin_temp s) (last (a_trans s)),
            trans_available := (if anim_nesting s - 1 = 0 then False else trans_available s)\<rparr>"
    by (rule sym)
  with False show ?thesis by (rule conjI)
qed

lemma on_TRIS_Inr:
  assumes "on_TRIS pint origo line s = Inr s'"
  obtains off cnt where "getnum pint line 1 = Inr off" and "getnum pint line 2 = Inr cnt"
    and "s' = s\<lparr>objects := objects s @
           [(if trans_available s then origin_temp s else origo,
             py_slice (faces s) off (off + cnt))]\<rparr>"
  using assms unfolding on_TRIS_def Let_def
  by (elim bindE_InrE) (rule that, assumption, assumption, drule sum.inject [THEN iffD1], erule sym)

lemma setitem_length: "setitem xs i v = Inr ys \<Longrightarrow> length ys = length xs"
  by (auto simp: setitem_def Let_def split: if_splits)

lemma length_butlast_int: "xs \<noteq> [] \<Longrightarrow> int (length xs - Suc 0) = int (length xs) - 1"
  by (cases xs) simp_all


lemma step_elim [consumes 1, case_names same VT IDX ANIM_begin ANIM_trans ANIM_end TRIS]:
  assumes "step pfloat pint ld origo s line = Inr s'"
  obtains "s' = s"
  | p n t where
      "s' = s\<lparr>verts := verts s @ [p], normals := normals s @ [n], uv := uv s @ [t]\<rparr>"
  | vs where "s' = s\<lparr>faces := faces s @ vs\<rparr>"
  | "s' = s\<lparr>anim_nesting := anim_nesting s + 1, a_trans := a_trans s @ [(0, 0, 0)]\<rparr>"
  | o_t at where "setitem (a_trans s) (anim_nesting s) o_t = Inr at"
      and "s' = s\<lparr>a_trans := at, origin_temp := vadd (origin_temp s) o_t,
                   trans_available := True\<rparr>"
  | "a_trans s \<noteq> []"
      and "s' = s\<lparr>anim_nesting := anim_nesting s - 1, a_trans := butlast (a_trans s),
            origin_temp := vsub (origin_temp s) (last (a_trans s)),
            trans_available := (if anim_nesting s - 1 = 0 then False else trans_available s)\<rparr>"
  | off cnt where
      "s' = s\<lparr>objects := objects s @
           [(if trans_available s then origin_temp s else origo,
             py_slice (faces s) off (off + cnt))]\<rparr>"
proof -
  from step_cases [OF assms] show thesis
  proof (elim disjE)
    assume "s' = s"
    then show thesis by (rule that(1))
  next
    assume "on_VT pfloat line s = Inr s'"
    then show thesis by (rule on_VT_Inr) (rule that(2))
  next
    assume "on_IDX pint line s = Inr s'"
    then show thesis by (rule on_IDX_Inr) (rule that(3))
  next
    assume "on_ANIM_begin s = Inr s'"
    then show thesis by (intro that(4) on_ANIM_begin_Inr)
  next
    assume "on_ANIM_trans pfloat line s = Inr s'"
    then show thesis by (rule on_ANIM_trans_Inr) (rule that(5))
  next
    assume "on_ANIM_end s = Inr s'"
    from on_ANIM_end_Inr [OF this] show thesis by (intro that(6)) simp_all
  next
    assume "on_TRIS pint origo line s = Inr s'"
    then show thesis by (rule on_TRIS_Inr) (rule that(7))
  qed
qed

subsection \<open>Invariants of the scan\<close>


lemma step_stack_synced:
  assumes "stack_synced s" and "step pfloat pint ld origo s line = Inr s'"
  shows "stack_synced s'"
  using assms(2,1)
  by (cases rule: step_elim)
     (simp_all add: stack_synced_def setitem_length length_butlast_int)


lemma step_objects_new:
  assumes "step pfloat pint ld origo s line = Inr s'"
  shows "objects s' = objects s \<or>
         (\<exists>og lo hi. objects s' = objects s @ [(og, py_slice (faces s) lo hi)])"
  using assms
proof (cases rule: step_elim)
  case (TRIS off cnt)
  then have "objects s' = objects s @
     [(if trans_available s then origin_temp s else origo, py_slice (faces s) off (off + cnt))]"
    by simp
  then show ?thesis by blast
qed simp_all

lemma step_objects_grow:
  assumes "step pfloat pint ld origo s line = Inr s'"
  shows "\<exists>more. objects s' = objects s @ more"
  using step_objects_new [OF assms] by auto



lemma init_stack_synced: "stack_synced init_state"
  by (simp add: stack_synced_def init_state_def)


subsection \<open>Reachable states\<close>


lemma scan_stack_synced:
  assumes "scan pfloat pint ld origo init_state ls = Inr s"
  shows "stack_synced s"
  using step_stack_synced init_stack_synced assms
  by (rule scan_invariant [where P = stack_synced])


lemma scan_objects_grow:
  assumes "scan pfloat pint ld origo s ls = Inr s'"
  shows "\<exists>more. objects s' = objects s @ more"
proof -
  have "\<exists>more. objects s' = objects s @ more"
    if "\<exists>more. objects s0 = objects s @ more" and "scan pfloat pint ld origo s0 ls = Inr s'"
    for s0
  proof (rule scan_invariant [where P = "\<lambda>t. \<exists>more. objects t = objects s @ more", OF _ that])
    fix t line t'
    assume "\<exists>more. objects t = objects s @ more" and "step pfloat pint ld origo t line = Inr t'"
    then obtain m1 m2 where "objects t = objects s @ m1" and "objects t' = objects t @ m2"
      using step_objects_grow by blast
    then have "objects t' = objects s @ (m1 @ m2)" by simp
    then show "\<exists>more. objects t' = objects s @ more" ..
  qed
  from this [of s] assms show ?thesis by simp
qed

lemma scan_snoc:
  assumes "scan pfloat pint ld origo s0 pre = Inr s"
  shows "scan pfloat pint ld origo s0 (pre @ line # post) =
           bindE (step pfloat pint ld origo s line) (\<lambda>s'. scan pfloat pint ld origo s' post)"
  by (simp add: scan_append assms)

subsection \<open>Lines that parse\<close>

lemma step_TRIS_ok:
  assumes "pint toff = Some off" and "pint tcnt = Some cnt"
  shows "step pfloat pint ld origo s (''TRIS'' # toff # tcnt # rest) =
     Inr (s\<lparr>objects := objects s @
           [(if trans_available s then origin_temp s else origo,
             py_slice (faces s) off (off + cnt))]\<rparr>)"
  unfolding step_TRIS on_TRIS_def
  by (simp add: getnum_def getitem_def assms)

lemma step_VT_ok:
  assumes "pfloat tx = Some x" "pfloat ty = Some y" "pfloat tz = Some z"
    and "pfloat tnx = Some nx" "pfloat tny = Some ny" "pfloat tnz = Some nz"
    and "pfloat tu = Some u" "pfloat tv = Some v"
  shows "step pfloat pint ld origo s (''VT'' # tx # ty # tz # tnx # tny # tnz # tu # tv # rest) =
     Inr (s\<lparr>verts := verts s @ [(x, - z, y)], normals := normals s @ [(nx, - nz, ny)],
            uv := uv s @ [(u, v)]\<rparr>)"
  unfolding step_VT on_VT_def
  by (simp add: getnum_def getitem_def assms)

subsection \<open>Slices\<close>


lemma py_slice_clipped:
  assumes "0 \<le> off" and "int (length xs) < off + cnt"
  shows "py_slice xs off (off + cnt) = drop (nat off) xs"
proof -
  from assms have a: "slice_bound (length xs) off = min (length xs) (nat off)"
    by (simp add: slice_bound_def)
  from assms have b: "slice_bound (length xs) (off + cnt) = length xs"
    unfolding slice_bound_def min_def by (simp; linarith)
  show ?thesis
  proof (cases "nat off \<le> length xs")
    case True
    with a b show ?thesis by (simp add: py_slice_def Let_def min_def)
  next
    case False
    with a b show ?thesis by (simp add: py_slice_def Let_def min_def)
  qed
qed

subsection \<open>Triplets and mesh calls\<close>







lemma mesh_calls_nth:
  "i < length objs \<Longrightarrow>
   mesh_calls s k objs ! i =
     \<lparr>mc_counter = k + i, mc_origin = fst (objs ! i), mc_verts = verts s,
      mc_faces = triples (snd (objs ! i)), mc_uvs = uv s, mc_normals = normals s\<rparr>"
proof (induction s k objs arbitrary: i rule: mesh_calls.induct)
  case (1 s counter)
  then show ?case by simp
next
  case (2 s counter orig obj rest)
  then show ?case by (cases i) simp_all
qed


subsection \<open>Decimal tokens\<close>

lemma dec_int_0: "dec_int ''0'' = Some 0"
  by code_simp


lemma dec_int_5: "dec_int ''5'' = Some 5"
  by code_simp

lemma dec_int_6: "dec_int ''6'' = Some 6"
  by code_simp

lemma dec_int_10: "dec_int ''10'' = Some 10"
  by code_simp

lemma dec_num_1: "dec_num ''1'' = Some (1::int)"
  by code_simp

lemma dec_num_2: "dec_num ''2'' = Some (2::int)"
  by code_simp

lemma dec_num_3: "dec_num ''3'' = Some (3::int)"
  by code_simp

lemma dec_num_4: "dec_num ''4'' = Some (4::int)"
  by code_simp

lemma dec_num_5: "dec_num ''5'' = Some (5::int)"
  by code_simp

lemma dec_num_6: "dec_num ''6'' = Some (6::int)"
  by code_simp

lemma dec_num_7: "dec_num ''7'' = Some (7::int)"
  by code_simp

lemma dec_num_8: "dec_num ''8'' = Some (8::int)"
  by code_simp

section \<open>The claims\<close>

subsection \<open>C1: axis conversion of a vertex record\<close>

text \<open>
  Claim C1, as amended. For every \<open>VT\<close> line whose eight numeric fields parse, with raw
  position \<open>(x, y, z)\<close>, raw normal \<open>(nx, ny, nz)\<close> and UV fields \<open>(u, v)\<close>, the
  scan appends the position \<open>(x, -z, y)\<close> and the normal \<open>(nx, -nz, ny)\<close>, the same
  rule for both (swap the second and third components and negate the new second one), and
  appends the UV pair unaltered. Raw \<open>(1, 2, 3)\<close> becomes \<open>(1, -3, 2)\<close>.
\<close>

theorem C1_vt_axis_conversion:
  assumes "pfloat tx = Some x" and "pfloat ty = Some y" and "pfloat tz = Some z"
    and "pfloat tnx = Some nx" and "pfloat tny = Some ny" and "pfloat tnz = Some nz"
    and "pfloat tu = Some u" and "pfloat tv = Some v"
  shows "step pfloat pint ld origo s (''VT'' # tx # ty # tz # tnx # tny # tnz # tu # tv # rest) =
     Inr (s\<lparr>verts := verts s @ [(x, - z, y)], normals := normals s @ [(nx, - nz, ny)],
            uv := uv s @ [(u, v)]\<rparr>)"
  using assms by (rule step_VT_ok)

text \<open>The theorem at the line \<open>VT 1 2 3 4 5 6 7 8\<close>.\<close>

theorem C1_witness:
  "step dec_num dec_int any_file (0, 0, 0) init_state
     [''VT'', ''1'', ''2'', ''3'', ''4'', ''5'', ''6'', ''7'', ''8''] =
   Inr (init_state\<lparr>verts := [(1, - 3, 2 :: int)], normals := [(4, - 6, 5)], uv := [(7, 8)]\<rparr>)"
  using C1_vt_axis_conversion [OF dec_num_1 dec_num_2 dec_num_3 dec_num_4 dec_num_5 dec_num_6
      dec_num_7 dec_num_8, of dec_int any_file "(0, 0, 0)" init_state "[]"]
  by (simp add: init_state_def)

text \<open>
  The claim as stated asks for \<open>(x, z, -y)\<close>, so \<open>(1, 3, -2)\<close> for raw \<open>(1, 2, 3)\<close>.
  The scan of \<open>VT 1 2 3 1 2 3 7 8\<close> stores \<open>(1, -3, 2)\<close> for position and normal.
\<close>

theorem C1_counterexample:
  "scan dec_num dec_int any_file (0, 0, 0) init_state
     [[''VT'', ''1'', ''2'', ''3'', ''1'', ''2'', ''3'', ''7'', ''8'']] =
   Inr \<lparr>verts = [(1, - 3, 2 :: int)], uv = [(7, 8)], faces = [], normals = [(1, - 3, 2)],
        origin_temp = (0, 0, 0), anim_nesting = 0, a_trans = [(0, 0, 0)],
        trans_available = False, objects = []\<rparr> \<and>
   spec_convert (1, 2, 3 :: int) = (1, 3, - 2) \<and>
   (1, - 3, 2 :: int) \<noteq> spec_convert (1, 2, 3)"
  by code_simp

subsection \<open>C2: the origin of an object\<close>

text \<open>
  Claim C2, as amended. For every \<open>TRIS\<close> line whose two integers parse, reached after
  any scanned prefix, the descriptor appended has the origin \<open>origin_temp\<close> (the running
  cumulative origin) when the flag \<open>trans_available\<close> is set at that point, and the
  caller's \<open>origo\<close> otherwise. The flag, not the nesting depth, decides.
\<close>

theorem C2_origin_by_flag:
  assumes "scan pfloat pint ld origo init_state pre = Inr s"
    and "pint toff = Some off" and "pint tcnt = Some cnt"
  shows "scan pfloat pint ld origo init_state (pre @ [''TRIS'' # toff # tcnt # rest]) =
     Inr (s\<lparr>objects := objects s @
           [(if trans_available s then origin_temp s else origo,
             py_slice (faces s) off (off + cnt))]\<rparr>)"
  by (simp add: scan_snoc [OF assms(1)] step_TRIS_ok [OF assms(2,3)])

text \<open>The theorem after \<open>ANIM_begin\<close>, \<open>ANIM_trans 1 0 0\<close>, with \<open>origo = (5, 5, 5)\<close>:
  the flag is set and the origin is \<open>(1, 0, 0)\<close>.\<close>

theorem C2_witness:
  "scan dec_num dec_int any_file (5, 5, 5) init_state
     [[''ANIM_begin''], [''ANIM_trans'', ''1'', ''0'', ''0'']] =
     Inr \<lparr>verts = [], uv = [], faces = [], normals = [], origin_temp = (1, 0, 0 :: int),
          anim_nesting = 1, a_trans = [(0, 0, 0), (1, 0, 0)], trans_available = True,
          objects = []\<rparr> \<and>
   scan dec_num dec_int any_file (5, 5, 5) init_state
     ([[''ANIM_begin''], [''ANIM_trans'', ''1'', ''0'', ''0'']] @ [[''TRIS'', ''0'', ''0'']]) =
     Inr \<lparr>verts = [], uv = [], faces = [], normals = [], origin_temp = (1, 0, 0 :: int),
          anim_nesting = 1, a_trans = [(0, 0, 0), (1, 0, 0)], trans_available = True,
          objects = [((1, 0, 0), [])]\<rparr>"
proof -
  have pre: "scan dec_num dec_int any_file (5, 5, 5) init_state
     [[''ANIM_begin''], [''ANIM_trans'', ''1'', ''0'', ''0'']] =
     Inr \<lparr>verts = [], uv = [], faces = [], normals = [], origin_temp = (1, 0, 0 :: int),
          anim_nesting = 1, a_trans = [(0, 0, 0), (1, 0, 0)], trans_available = True,
          objects = []\<rparr>"
    by code_simp
  from C2_origin_by_flag [OF pre dec_int_0 dec_int_0, of "[]"] pre show ?thesis
    by (simp add: py_slice_def)
qed

text \<open>
  The claim as stated: after \<open>ANIM_begin\<close> the depth is above the root, so the origin
  would be the cumulative origin \<open>(0, 0, 0)\<close>. No \<open>ANIM_trans\<close> was seen, the flag is
  not set, and the object gets \<open>origo = (5, 5, 5)\<close>.
\<close>

theorem C2_counterexample:
  "scan dec_num dec_int any_file (5, 5, 5) init_state [[''ANIM_begin'']] =
     Inr \<lparr>verts = [], uv = [], faces = [], normals = [], origin_temp = (0, 0, 0 :: int),
          anim_nesting = 1, a_trans = [(0, 0, 0), (0, 0, 0)], trans_available = False,
          objects = []\<rparr> \<and>
   scan dec_num dec_int any_file (5, 5, 5) init_state [[''ANIM_begin''], [''TRIS'', ''0'', ''0'']] =
     Inr \<lparr>verts = [], uv = [], faces = [], normals = [], origin_temp = (0, 0, 0 :: int),
          anim_nesting = 1, a_trans = [(0, 0, 0), (0, 0, 0)], trans_available = False,
          objects = [((5, 5, 5), [])]\<rparr> \<and>
   spec_origin
     \<lparr>verts = [], uv = [], faces = [], normals = [], origin_temp = (0, 0, 0 :: int),
      anim_nesting = 1, a_trans = [(0, 0, 0), (0, 0, 0)], trans_available = False,
      objects = []\<rparr> (5, 5, 5) = (0, 0, 0)"
  by code_simp

subsection \<open>C3: the cumulative origin and the frames on the stack\<close>

text \<open>
  Claim C3: at every point of the scan the cumulative origin is the vector sum of the
  frames pushed and not yet popped, also with repeated \<open>ANIM_trans\<close> at one nesting
  level. The scan of \<open>ANIM_begin\<close>, \<open>ANIM_trans 1 0 0\<close>, \<open>ANIM_trans 2 0 0\<close> leaves
  \<open>origin_temp = (3, 0, 0)\<close> while the frames on the stack sum to \<open>(2, 0, 0)\<close>: the
  second \<open>ANIM_trans\<close> replaces the frame of the first and is added to the origin all
  the same.
\<close>

theorem C3_repeated_trans_breaks_sum:
  "scan dec_num dec_int any_file (0, 0, 0) init_state
     [[''ANIM_begin''], [''ANIM_trans'', ''1'', ''0'', ''0''], [''ANIM_trans'', ''2'', ''0'', ''0'']] =
     Inr \<lparr>verts = [], uv = [], faces = [], normals = [], origin_temp = (3, 0, 0 :: int),
          anim_nesting = 1, a_trans = [(0, 0, 0), (2, 0, 0)], trans_available = True,
          objects = []\<rparr> \<and>
   frames_sum [(0, 0, 0), (2, 0, 0 :: int)] = (2, 0, 0)"
  by code_simp

subsection \<open>C4: a draw directive beyond the index buffer\<close>

text \<open>
  Claim C4, as amended. For every \<open>TRIS\<close> line with \<open>0 \<le> offset\<close> whose
  \<open>offset + count\<close> exceeds the length of the index buffer, no error is raised: a
  descriptor is appended that holds the entries from \<open>offset\<close> to the end of the buffer
  (none when \<open>offset\<close> is at or beyond the end), and the scan goes on with the lines
  that follow.
\<close>

theorem C4_out_of_range_clipped:
  assumes "scan pfloat pint ld origo init_state pre = Inr s"
    and "pint toff = Some off" and "pint tcnt = Some cnt"
    and "0 \<le> off" and "int (length (faces s)) < off + cnt"
  shows "scan pfloat pint ld origo init_state (pre @ (''TRIS'' # toff # tcnt # rest) # post) =
     scan pfloat pint ld origo
       (s\<lparr>objects := objects s @
           [(if trans_available s then origin_temp s else origo, drop (nat off) (faces s))]\<rparr>)
       post"
  by (simp add: scan_snoc [OF assms(1)] step_TRIS_ok [OF assms(2,3)]
        py_slice_clipped [OF assms(4,5)])

text \<open>The theorem at \<open>TRIS 5 10\<close> against a buffer of nine entries, followed by
  \<open>IDX 9\<close>.\<close>

theorem C4_witness:
  "scan dec_num dec_int any_file (0, 0, 0) init_state
     ([[''IDX10'', ''0'', ''1'', ''2'', ''3'', ''4'', ''5'', ''6'', ''7'', ''8'']] @
      [''TRIS'', ''5'', ''10''] # [[''IDX'', ''9'']]) =
     Inr \<lparr>verts = [], uv = [], faces = [0, 1, 2, 3, 4, 5, 6, 7, 8, 9], normals = [],
          origin_temp = (0, 0, 0 :: int), anim_nesting = 0, a_trans = [(0, 0, 0)],
          trans_available = False, objects = [((0, 0, 0), [5, 6, 7, 8])]\<rparr>"
proof -
  let ?s = "\<lparr>verts = [], uv = [], faces = [0, 1, 2, 3, 4, 5, 6, 7, 8], normals = [],
          origin_temp = (0, 0, 0 :: int), anim_nesting = 0, a_trans = [(0, 0, 0)],
          trans_available = False, objects = []\<rparr>"
  have pre: "scan dec_num dec_int any_file (0, 0, 0) init_state
     [[''IDX10'', ''0'', ''1'', ''2'', ''3'', ''4'', ''5'', ''6'', ''7'', ''8'']] = Inr ?s"
    by code_simp
  have rng: "int (length (faces ?s)) < 5 + 10" by simp
  have post: "scan dec_num dec_int any_file (0, 0, 0)
      (?s\<lparr>objects := objects ?s @
           [(if trans_available ?s then origin_temp ?s else (0, 0, 0), drop (nat 5) (faces ?s))]\<rparr>)
      [[''IDX'', ''9'']] =
     Inr \<lparr>verts = [], uv = [], faces = [0, 1, 2, 3, 4, 5, 6, 7, 8, 9], normals = [],
          origin_temp = (0, 0, 0 :: int), anim_nesting = 0, a_trans = [(0, 0, 0)],
          trans_available = False, objects = [((0, 0, 0), [5, 6, 7, 8])]\<rparr>"
    by code_simp
  have nonneg: "(0::int) \<le> 5" by simp
  from C4_out_of_range_clipped [OF pre dec_int_5 dec_int_10 nonneg rng, of "[]" "[[''IDX'', ''9'']]"]
  show ?thesis by (simp only: post)
qed

text \<open>
  The claim as stated: \<open>TRIS 5 10\<close> against nine entries fails and appends nothing. The
  scan completes, with the object \<open>[5, 6, 7, 8]\<close> in its list.
\<close>

theorem C4_counterexample:
  "scan dec_num dec_int any_file (0, 0, 0) init_state
     [[''IDX10'', ''0'', ''1'', ''2'', ''3'', ''4'', ''5'', ''6'', ''7'', ''8''],
      [''TRIS'', ''5'', ''10'']] =
     Inr \<lparr>verts = [], uv = [], faces = [0, 1, 2, 3, 4, 5, 6, 7, 8], normals = [],
          origin_temp = (0, 0, 0 :: int), anim_nesting = 0, a_trans = [(0, 0, 0)],
          trans_available = False, objects = [((0, 0, 0), [5, 6, 7, 8])]\<rparr>"
  by code_simp

subsection \<open>C5: grouping a slice into triangles\<close>




subsection \<open>C6: \<open>ANIM_end\<close> without an open block\<close>

text \<open>
  Claim C6, as amended. At every point of every scan \<open>anim_nesting \<ge> -1\<close> and
  \<open>anim_nesting\<close> is the length of the frame stack less one. An \<open>ANIM_end\<close> fails, with
  \<open>IndexError\<close>, exactly when \<open>anim_nesting = -1\<close> (the stack is empty); otherwise it
  pops the last frame and decrements \<open>anim_nesting\<close>. So an \<open>ANIM_end\<close> at the root
  pops the root frame and leaves \<open>anim_nesting = -1\<close> without failing.
\<close>

theorem C6_anim_end_at_root:
  assumes "scan pfloat pint ld origo init_state pre = Inr s"
  shows "- 1 \<le> anim_nesting s \<and> int (length (a_trans s)) = anim_nesting s + 1 \<and>
     step pfloat pint ld origo s (''ANIM_end'' # rest) =
       (if anim_nesting s = - 1 then Inl IndexError
        else Inr (s\<lparr>anim_nesting := anim_nesting s - 1, a_trans := butlast (a_trans s),
                    origin_temp := vsub (origin_temp s) (last (a_trans s)),
                    trans_available :=
                      (if anim_nesting s - 1 = 0 then False else trans_available s)\<rparr>))"
proof -
  from scan_stack_synced [OF assms] have sync: "int (length (a_trans s)) = anim_nesting s + 1"
    by (simp add: stack_synced_def)
  then have low: "- 1 \<le> anim_nesting s" by linarith
  from sync have empty: "a_trans s = [] \<longleftrightarrow> anim_nesting s = - 1" by auto
  have "step pfloat pint ld origo s (''ANIM_end'' # rest) =
       (if anim_nesting s = - 1 then Inl IndexError
        else Inr (s\<lparr>anim_nesting := anim_nesting s - 1, a_trans := butlast (a_trans s),
                    origin_temp := vsub (origin_temp s) (last (a_trans s)),
                    trans_available :=
                      (if anim_nesting s - 1 = 0 then False else trans_available s)\<rparr>))"
    unfolding step_ANIM_end on_ANIM_end_def pop_def using empty by (simp add: Let_def)
  with sync low show ?thesis by simp
qed

text \<open>The theorem after one \<open>ANIM_end\<close> at the root: the next \<open>ANIM_end\<close> fails.\<close>

theorem C6_witness:
  "scan dec_num dec_int any_file (0, 0, 0) init_state [[''ANIM_end'']] =
     Inr \<lparr>verts = [], uv = [], faces = [], normals = [], origin_temp = (0, 0, 0 :: int),
          anim_nesting = - 1, a_trans = [], trans_available = False, objects = []\<rparr> \<and>
   step dec_num dec_int any_file (0, 0, 0)
     \<lparr>verts = [], uv = [], faces = [], normals = [], origin_temp = (0, 0, 0 :: int),
      anim_nesting = - 1, a_trans = [], trans_available = False, objects = []\<rparr>
     [''ANIM_end''] = Inl IndexError"
proof -
  have pre: "scan dec_num dec_int any_file (0, 0, 0) init_state [[''ANIM_end'']] =
     Inr \<lparr>verts = [], uv = [], faces = [], normals = [], origin_temp = (0, 0, 0 :: int),
          anim_nesting = - 1, a_trans = [], trans_available = False, objects = []\<rparr>"
    by code_simp
  from C6_anim_end_at_root [OF pre, of "[]"] pre show ?thesis by simp
qed

text \<open>
  The claim as stated: an \<open>ANIM_end\<close> with no open block fails, and the depth is never
  negative. The scan of the single line \<open>ANIM_end\<close> completes with
  \<open>anim_nesting = -1\<close>.
\<close>

theorem C6_counterexample:
  "scan dec_num dec_int any_file (0, 0, 0) init_state [[''ANIM_end'']] =
     Inr \<lparr>verts = [], uv = [], faces = [], normals = [], origin_temp = (0, 0, 0 :: int),
          anim_nesting = - 1, a_trans = [], trans_available = False, objects = []\<rparr>"
  by code_simp

subsection \<open>C7: aligned arrays and the triangle indices\<close>




subsection \<open>C8: the slice of a draw directive\<close>



subsection \<open>C10: the slice is a snapshot\<close>

text \<open>
  Claim C10. The object that a \<open>TRIS\<close> line appends holds the slice of the index buffer
  as it is at that line: whatever lines follow, among them \<open>IDX\<close> and \<open>IDX10\<close> lines
  that extend the buffer, the object at that position of the final list, and the faces of
  its mesh call, are those of the buffer before the \<open>TRIS\<close> line.
\<close>

theorem C10_slice_is_snapshot:
  assumes "scan pfloat pint ld origo init_state pre = Inr s"
    and "pint toff = Some off" and "pint tcnt = Some cnt"
    and "scan pfloat pint ld origo init_state (pre @ (''TRIS'' # toff # tcnt # rest) # post) = Inr s'"
  shows "length (objects s) < length (objects s') \<and>
     snd (objects s' ! length (objects s)) = py_slice (faces s) off (off + cnt) \<and>
     mc_faces (mesh_calls s' 0 (objects s') ! length (objects s)) =
       triples (py_slice (faces s) off (off + cnt))"
proof -
  let ?d = "(if trans_available s then origin_temp s else origo,
             py_slice (faces s) off (off + cnt))"
  let ?s1 = "s\<lparr>objects := objects s @ [?d]\<rparr>"
  from assms(4) have "scan pfloat pint ld origo ?s1 post = Inr s'"
    by (simp add: scan_snoc [OF assms(1)] step_TRIS_ok [OF assms(2,3)])
  from scan_objects_grow [OF this] obtain more where
    "objects s' = objects ?s1 @ more" ..
  then have o: "objects s' = objects s @ ?d # more" by simp
  then have len: "length (objects s) < length (objects s')" by simp
  from o have nth: "objects s' ! length (objects s) = ?d" by simp
  from len nth show ?thesis by (simp add: mesh_calls_nth)
qed

text \<open>The theorem at \<open>IDX 0 1 2\<close>, \<open>TRIS 0 6\<close>, \<open>IDX 3 4 5\<close>: the object stays
  \<open>[0, 1, 2]\<close>.\<close>

theorem C10_witness:
  "scan dec_num dec_int any_file (0, 0, 0) init_state
     ([[''IDX'', ''0'', ''1'', ''2'']] @ [''TRIS'', ''0'', ''6''] # [[''IDX'', ''3'', ''4'', ''5'']]) =
     Inr \<lparr>verts = [], uv = [], faces = [0, 1, 2, 3, 4, 5], normals = [],
          origin_temp = (0, 0, 0 :: int), anim_nesting = 0, a_trans = [(0, 0, 0)],
          trans_available = False, objects = [((0, 0, 0), [0, 1, 2])]\<rparr> \<and>
   py_slice [0, 1, 2 :: int] 0 (0 + 6) = [0, 1, 2] \<and>
   mc_faces (mesh_calls
       \<lparr>verts = [], uv = [], faces = [0, 1, 2, 3, 4, 5], normals = [],
        origin_temp = (0, 0, 0 :: int), anim_nesting = 0, a_trans = [(0, 0, 0)],
        trans_available = False, objects = [((0, 0, 0), [0, 1, 2])]\<rparr> 0
       [((0, 0, 0), [0, 1, 2])] ! 0) = triples (py_slice [0, 1, 2] 0 (0 + 6))"
proof -
  let ?s = "\<lparr>verts = [], uv = [], faces = [0, 1, 2], normals = [],
          origin_temp = (0, 0, 0 :: int), anim_nesting = 0, a_trans = [(0, 0, 0)],
          trans_available = False, objects = []\<rparr>"
  let ?s' = "\<lparr>verts = [], uv = [], faces = [0, 1, 2, 3, 4, 5], normals = [],
          origin_temp = (0, 0, 0 :: int), anim_nesting = 0, a_trans = [(0, 0, 0)],
          trans_available = False, objects = [((0, 0, 0), [0, 1, 2])]\<rparr>"
  have pre: "scan dec_num dec_int any_file (0, 0, 0) init_state [[''IDX'', ''0'', ''1'', ''2'']] =
      Inr ?s"
    by code_simp
  have all: "scan dec_num dec_int any_file (0, 0, 0) init_state
     ([[''IDX'', ''0'', ''1'', ''2'']] @ [''TRIS'', ''0'', ''6''] # [[''IDX'', ''3'', ''4'', ''5'']]) =
      Inr ?s'"
    by code_simp
  from C10_slice_is_snapshot [OF pre dec_int_0 dec_int_6 all] all show ?thesis
    by (simp add: py_slice_def slice_bound_def)
qed

end
